theory Spec2Isabelle
  imports Complex_Main "HOL-Library.AList" "HOL-Library.Log_Nat"
begin

section \<open>The VCD parser of \<^verbatim>\<open>vcd_parser_axi.py\<close>\<close>

text \<open>
  The development embeds \<^verbatim>\<open>parse_vcd\<close> and \<^verbatim>\<open>analyze_signal\<close>. A file that
  has been opened is the list of the lines its iteration yields; a character is a code
  point below 256. What the \<^verbatim>\<open>print\<close> calls write is left out, but not the
  exceptions they can raise; every other statement of the two functions has a
  counterpart below. Each exception the code can raise and does not catch is a value
  of \<open>error\<close>. In \<^verbatim>\<open>parse_vcd\<close> the only integer printed is the width of line 58,
  which \<^verbatim>\<open>int\<close> has just returned and which therefore has no more digits than the
  limit of the conversion to text (lemma \<open>py_int_str_ok\<close> below): these calls raise
  nothing.
\<close>

subsection \<open>String operations of the language\<close>

datatype error = IndexError | ValueError | ZeroDivisionError | OverflowError

text \<open>\<^verbatim>\<open>str.isspace\<close> on one character, for the code points below 256.\<close>

definition isspace :: "char \<Rightarrow> bool" where
  "isspace c =
     (c \<in> set [CHR 0x09, CHR 0x0A, CHR 0x0B, CHR 0x0C, CHR 0x0D, CHR 0x1C, CHR 0x1D,
                CHR 0x1E, CHR 0x1F, CHR 0x20, CHR 0x85, CHR 0xA0])"

text \<open>\<^verbatim>\<open>line.strip()\<close>: whitespace removed at both ends.\<close>

definition str_strip :: "string \<Rightarrow> string" where
  "str_strip s = rev (dropWhile isspace (rev (dropWhile isspace s)))"

text \<open>\<^verbatim>\<open>line.startswith(p)\<close>.\<close>

definition str_startswith :: "string \<Rightarrow> string \<Rightarrow> bool" where
  "str_startswith s p = (take (length p) s = p)"

text \<open>
  \<^verbatim>\<open>line.split()\<close>: the maximal runs of non-whitespace characters, in order. The
  first argument of \<open>split_from\<close> is the run read so far.
\<close>

fun split_from :: "string \<Rightarrow> string \<Rightarrow> string list" where
  "split_from w [] = (if w = [] then [] else [w])"
| "split_from w (c # cs) =
     (if isspace c then (if w = [] then split_from [] cs else w # split_from [] cs)
      else split_from (w @ [c]) cs)"

definition str_split :: "string \<Rightarrow> string list" where
  "str_split s = split_from [] s"

text \<open>
  \<^verbatim>\<open>int(s)\<close> on a string, base ten. The whitespace it skips at both ends is not
  all of \<^verbatim>\<open>str.isspace\<close>: the characters 0x1C to 0x1F are not skipped, and a string
  that holds one of them raises. Then one sign is allowed, then decimal digits, where a
  single underscore may stand between two digits. A string with more digits than the
  interpreter's limit, 4300 by default (leading zeros count, underscores do not), is
  refused. \<open>None\<close> is the \<^verbatim>\<open>ValueError\<close> of all these cases. The flag of
  \<open>int_digits\<close> says that the last character read was a digit.
\<close>

definition int_space :: "char \<Rightarrow> bool" where
  "int_space c =
     (c \<in> set [CHR 0x09, CHR 0x0A, CHR 0x0B, CHR 0x0C, CHR 0x0D, CHR 0x20, CHR 0x85, CHR 0xA0])"

definition max_str_digits :: nat where
  "max_str_digits = 4300"

definition isdigit :: "char \<Rightarrow> bool" where
  "isdigit c = (c \<in> set ''0123456789'')"

definition digit_value :: "char \<Rightarrow> int" where
  "digit_value c = int (of_char c) - 48"

fun int_digits :: "int \<Rightarrow> bool \<Rightarrow> string \<Rightarrow> int option" where
  "int_digits acc prev [] = (if prev then Some acc else None)"
| "int_digits acc prev (c # cs) =
     (if isdigit c then int_digits (10 * acc + digit_value c) True cs
      else if c = CHR ''_'' \<and> prev then int_digits acc False cs
      else None)"

definition py_int :: "string \<Rightarrow> int option" where
  "py_int s =
     (case rev (dropWhile int_space (rev (dropWhile int_space s))) of
        [] \<Rightarrow> None
      | c # cs \<Rightarrow>
          (let body = (if c = CHR ''-'' \<or> c = CHR ''+'' then cs else c # cs) in
           case int_digits 0 False body of
             None \<Rightarrow> None
           | Some n \<Rightarrow>
               if length (filter isdigit body) > max_str_digits then None
               else Some (if c = CHR ''-'' then - n else n)))"

text \<open>
  The conversion of an integer to decimal text, as \<^verbatim>\<open>print\<close> and the format
  \<^verbatim>\<open>6d\<close> do it, raises \<^verbatim>\<open>ValueError\<close> beyond the same limit: it succeeds for
  the integers of at most 4300 digits.
\<close>

definition int_str_ok :: "int \<Rightarrow> bool" where
  "int_str_ok n = (\<bar>n\<bar> < 10 ^ max_str_digits)"

text \<open>
  The arithmetic of a double, where no exponent leaves its range: \<open>round53\<close> rounds a
  rational to the nearest number of 53 significant bits, a tie going to the even one.
  \<open>exponent q\<close> is the \<open>e\<close> with \<open>2 ^ e \<le> q < 2 ^ (e + 1)\<close> for a positive
  \<open>q\<close> (lemma \<open>exponent_bounds\<close> below).
\<close>

definition pow2 :: "int \<Rightarrow> rat" where
  "pow2 k = (if 0 \<le> k then 2 ^ nat k else 1 / 2 ^ nat (- k))"

definition exponent :: "rat \<Rightarrow> int" where
  "exponent q = (if 1 \<le> q then bitlen \<lfloor>q\<rfloor> - 1 else - bitlen (\<lceil>1 / q\<rceil> - 1))"

definition round_half_even :: "rat \<Rightarrow> int" where
  "round_half_even q =
     (let f = \<lfloor>q\<rfloor>; r = q - of_int f in
      if r < 1 / 2 then f else if 1 / 2 < r then f + 1 else if even f then f else f + 1)"

definition round53 :: "rat \<Rightarrow> rat" where
  "round53 q =
     (if q = 0 then 0
      else (let u = pow2 (exponent \<bar>q\<bar> - 52) in
            sgn q * of_int (round_half_even (\<bar>q\<bar> / u)) * u))"

text \<open>\<^verbatim>\<open>str.lower\<close> on one character, for the code points below 256.\<close>

definition char_lower :: "char \<Rightarrow> char" where
  "char_lower c =
     (let n = (of_char c :: nat) in
      if (65 \<le> n \<and> n \<le> 90) \<or> (192 \<le> n \<and> n \<le> 222 \<and> n \<noteq> 215)
      then char_of (n + 32) else c)"

definition str_lower :: "string \<Rightarrow> string" where
  "str_lower s = map char_lower s"

text \<open>\<^verbatim>\<open>p in s\<close> on strings: \<open>p\<close> occurs in \<open>s\<close> as a contiguous block.\<close>

fun str_contains :: "string \<Rightarrow> string \<Rightarrow> bool" where
  "str_contains [] p = (p = [])"
| "str_contains (c # cs) p = (str_startswith (c # cs) p \<or> str_contains cs p)"

subsection \<open>The data the parser builds\<close>

text \<open>
  A dictionary is an association list with distinct keys in insertion order:
  \<open>AList.update\<close> overwrites a key where it stands or appends a new one, as an
  assignment \<^verbatim>\<open>d[k] = v\<close> does, and \<open>map_of\<close> is the lookup. An entry of
  \<^verbatim>\<open>signals\<close> is the dictionary with the keys \<^verbatim>\<open>'name'\<close>, \<^verbatim>\<open>'width'\<close>,
  \<^verbatim>\<open>'type'\<close> and \<^verbatim>\<open>'values'\<close>, here the fields \<open>sig_name\<close>, \<open>sig_width\<close>,
  \<open>sig_type\<close> and \<open>sig_values\<close>.
\<close>

record signal =
  sig_name :: string
  sig_width :: int
  sig_type :: string
  sig_values :: "(int \<times> string) list"

type_synonym signals = "(string \<times> signal) list"
type_synonym timeline = "(int \<times> (string \<times> string) list) list"

text \<open>The local variables of \<^verbatim>\<open>parse_vcd\<close> that live across the loop.\<close>

record state =
  signals :: signals
  timeline :: timeline
  current_time :: int
  in_definitions :: bool

definition init :: state where
  "init = \<lparr>signals = [], timeline = [], current_time = 0, in_definitions = True\<rparr>"

subsection \<open>One line of the file\<close>

text \<open>
  Lines 40 to 58: the \<^verbatim>\<open>$var\<close> branch. The fields are read in the order
  \<^verbatim>\<open>parts[1]\<close>, \<^verbatim>\<open>int(parts[2])\<close>, \<^verbatim>\<open>parts[3]\<close>, \<^verbatim>\<open>parts[4]\<close>, so the
  width is converted before the last two fields are looked at.
\<close>

definition parse_var :: "state \<Rightarrow> string \<Rightarrow> error + state" where
  "parse_var st line =
     (if str_startswith line ''$var'' then
        (case str_split line of
           _ # signal_type # w # rest \<Rightarrow>
             (case py_int w of
                None \<Rightarrow> Inl ValueError
              | Some width \<Rightarrow>
                  (case rest of
                     symbol # name # _ \<Rightarrow>
                       Inr (st\<lparr>signals :=
                              AList.update symbol
                                \<lparr>sig_name = name, sig_width = width, sig_type = signal_type,
                                 sig_values = []\<rparr>
                                (signals st)\<rparr>)
                   | _ \<Rightarrow> Inl IndexError))
         | _ \<Rightarrow> Inl IndexError)
      else Inr st)"

text \<open>Lines 63 to 65.\<close>

definition parse_enddefinitions :: "state \<Rightarrow> string \<Rightarrow> state" where
  "parse_enddefinitions st line =
     (if str_startswith line ''$enddefinitions'' then st\<lparr>in_definitions := False\<rparr> else st)"

text \<open>Lines 70 to 73.\<close>

definition parse_timestamp :: "state \<Rightarrow> string \<Rightarrow> error + state" where
  "parse_timestamp st line =
     (if str_startswith line ''#'' \<and> \<not> in_definitions st then
        (case py_int (drop 1 line) of
           None \<Rightarrow> Inl ValueError
         | Some t \<Rightarrow> Inr (st\<lparr>current_time := t\<rparr>))
      else Inr st)"

text \<open>
  Lines 79 to 91: the pair (\<^verbatim>\<open>symbol\<close>, \<^verbatim>\<open>value\<close>) a value-change line
  decodes to, \<open>None\<close> being Python's \<^verbatim>\<open>None\<close>.
\<close>

definition decode_change :: "string \<Rightarrow> error + (string option \<times> string option)" where
  "decode_change line =
     (if length line \<ge> 2 \<and> hd line \<in> set ''01xX'' then
        Inr (Some (tl line), Some [hd line])
      else if str_startswith line ''b'' then
        (case str_split line of
           [] \<Rightarrow> Inl IndexError
         | p0 # ps \<Rightarrow> Inr (case ps of [] \<Rightarrow> None | p1 # _ \<Rightarrow> Some p1, Some (drop 1 p0)))
      else Inr (None, None))"

text \<open>
  \<^verbatim>\<open>timeline[t]\<close> read from the \<^verbatim>\<open>defaultdict(list)\<close>: the empty list when the
  key is new.
\<close>

definition bucket :: "timeline \<Rightarrow> int \<Rightarrow> (string \<times> string) list" where
  "bucket tline t = (case map_of tline t of None \<Rightarrow> [] | Some b \<Rightarrow> b)"

text \<open>
  Lines 95 and 96. The first appends to the history of the entry of \<open>symbol\<close>, the
  second to the bucket of the current time.
\<close>

definition record_change :: "state \<Rightarrow> string \<Rightarrow> string \<Rightarrow> state" where
  "record_change st symbol v =
     st\<lparr>signals :=
          AList.map_entry symbol
            (\<lambda>info. info\<lparr>sig_values := sig_values info @ [(current_time st, v)]\<rparr>)
            (signals st),
        timeline :=
          AList.update (current_time st)
            (bucket (timeline st) (current_time st) @ [(symbol, v)])
            (timeline st)\<rparr>"

text \<open>
  Line 94: \<^verbatim>\<open>if symbol and symbol in signals\<close>. A symbol that is set always comes
  with a value (lemma \<open>decode_change_value\<close> below), so the last case is never reached.
\<close>

definition store_change :: "state \<Rightarrow> string option \<Rightarrow> string option \<Rightarrow> state" where
  "store_change st symbol v =
     (case symbol of
        None \<Rightarrow> st
      | Some s \<Rightarrow>
          if s \<noteq> [] \<and> map_of (signals st) s \<noteq> None then
            (case v of Some x \<Rightarrow> record_change st s x | None \<Rightarrow> st)
          else st)"

text \<open>Lines 78 to 96.\<close>

definition parse_change :: "state \<Rightarrow> string \<Rightarrow> error + state" where
  "parse_change st line =
     (if \<not> in_definitions st
         \<and> \<not> (str_startswith line ''$'' \<or> str_startswith line ''#'') \<and> line \<noteq> [] then
        (case decode_change line of
           Inl e \<Rightarrow> Inl e
         | Inr (symbol, v) \<Rightarrow> Inr (store_change st symbol v))
      else Inr st)"

text \<open>The body of the loop, lines 35 to 96: four \<^verbatim>\<open>if\<close> statements in a row.\<close>

definition parse_line :: "state \<Rightarrow> string \<Rightarrow> error + state" where
  "parse_line st raw =
     (let line = str_strip raw in
      case parse_var st line of
        Inl e \<Rightarrow> Inl e
      | Inr st1 \<Rightarrow>
          (case parse_timestamp (parse_enddefinitions st1 line) line of
             Inl e \<Rightarrow> Inl e
           | Inr st3 \<Rightarrow> parse_change st3 line))"

subsection \<open>The whole file\<close>

fun parse_lines :: "state \<Rightarrow> string list \<Rightarrow> error + state" where
  "parse_lines st [] = Inr st"
| "parse_lines st (l # ls) =
     (case parse_line st l of Inl e \<Rightarrow> Inl e | Inr st' \<Rightarrow> parse_lines st' ls)"

definition parse_vcd :: "string list \<Rightarrow> error + (signals \<times> timeline)" where
  "parse_vcd ls =
     (case parse_lines init ls of Inl e \<Rightarrow> Inl e | Inr st \<Rightarrow> Inr (signals st, timeline st))"

subsection \<open>The analysis of one signal\<close>

text \<open>
  \<^verbatim>\<open>analyze_signal\<close> prints what it finds and returns nothing; the model returns what
  is printed. Lines 117 to 121: the first entry, in insertion order, with the name asked
  for.
\<close>

definition find_signal :: "signals \<Rightarrow> string \<Rightarrow> signal option" where
  "find_signal signal_data signal_name =
     map_option snd (find (\<lambda>(symbol, info). sig_name info = signal_name) signal_data)"

text \<open>
  Lines 138 to 145: the period and the frequency of a clock. The code divides the float
  \<^verbatim>\<open>1e6\<close> by the period, an integer that the division first converts to a double,
  rounding it: the conversion raises \<^verbatim>\<open>OverflowError\<close> from \<open>2 ^ 1024 - 2 ^ 970\<close> on
  in absolute value (the first integer that rounds beyond the largest double), and the
  division raises \<^verbatim>\<open>ZeroDivisionError\<close> on zero. Below that bound the converted
  period is at most the largest double, and the quotient, rounded once more, lies
  between \<open>10 ^ 6\<close> and \<open>10 ^ 6 / 2 ^ 1024\<close> in absolute value: both are numbers of
  the normal range, so \<open>round53\<close> is the rounding the machine does. The frequency of
  the report is the rational value of the double that the code gets. The two prints of
  lines 144 and 145 raise nothing: the period has fewer than 310 digits.
\<close>

definition clock_report :: "signal \<Rightarrow> string \<Rightarrow> error + (int \<times> rat) option" where
  "clock_report signal_info signal_name =
     (if str_contains (str_lower signal_name) ''clk'' \<and> length (sig_values signal_info) \<ge> 3
      then
        (let rising_edges = map fst (filter (\<lambda>(t, v). v = ''1'') (sig_values signal_info)) in
         if length rising_edges \<ge> 2 then
           (let period = rising_edges ! 1 - rising_edges ! 0 in
            if \<bar>period\<bar> \<ge> 2 ^ 1024 - 2 ^ 970 then Inl OverflowError
            else if period = 0 then Inl ZeroDivisionError
            else Inr (Some (period, round53 (1000000 / round53 (of_int period)))))
         else Inr None)
      else Inr None)"

record analysis =
  a_type :: string
  a_width :: int
  a_transitions :: nat
  a_first :: "(int \<times> string) list"
  a_clock :: "(int \<times> rat) option"

text \<open>
  Lines 108 to 145; \<open>Inr None\<close> is the report that the signal was not found. Line 129
  prints the width and line 135 the times of the first ten entries: each raises
  \<^verbatim>\<open>ValueError\<close> on an integer of more than 4300 digits, before the clock is looked
  at.
\<close>

definition analyze_signal :: "signals \<Rightarrow> string \<Rightarrow> error + analysis option" where
  "analyze_signal signal_data signal_name =
     (case find_signal signal_data signal_name of
        None \<Rightarrow> Inr None
      | Some signal_info \<Rightarrow>
          if \<not> int_str_ok (sig_width signal_info) then Inl ValueError
          else if \<not> list_all (\<lambda>(t, v). int_str_ok t) (take 10 (sig_values signal_info))
          then Inl ValueError
          else
            (case clock_report signal_info signal_name of
               Inl e \<Rightarrow> Inl e
             | Inr c \<Rightarrow>
                 Inr (Some \<lparr>a_type = sig_type signal_info, a_width = sig_width signal_info,
                             a_transitions = length (sig_values signal_info),
                             a_first = take 10 (sig_values signal_info), a_clock = c\<rparr>)))"

subsection \<open>Notions the statements below use\<close>

text \<open>
  A line that reaches the value-change branch (line 78) once the definitions are over:
  not empty, and starting with neither \<^verbatim>\<open>$\<close> nor \<^verbatim>\<open>#\<close>.
\<close>

definition change_line :: "string \<Rightarrow> bool" where
  "change_line line =
     (line \<noteq> [] \<and> \<not> str_startswith line ''$'' \<and> \<not> str_startswith line ''#'')"

text \<open>
  What the value-change branch records for a line: the decoded pair when the symbol is
  set, not empty and a key of the registry (line 94), nothing otherwise. \<open>events\<close> is
  the same for a run of raw lines, in file order.
\<close>

definition recorded :: "signals \<Rightarrow> string \<Rightarrow> (string \<times> string) list" where
  "recorded sigs line =
     (case decode_change line of
        Inr (Some s, Some v) \<Rightarrow> if s \<noteq> [] \<and> map_of sigs s \<noteq> None then [(s, v)] else []
      | _ \<Rightarrow> [])"

definition events :: "signals \<Rightarrow> string list \<Rightarrow> (string \<times> string) list" where
  "events sigs ls = concat (map (\<lambda>raw. recorded sigs (str_strip raw)) ls)"

text \<open>
  A declaration line that the \<^verbatim>\<open>$var\<close> branch accepts: at least five fields, the third
  an integer. \<open>lines_ok d ls\<close> says that, read from a phase \<open>d\<close> (the value of
  \<^verbatim>\<open>in_definitions\<close>), every declaration line of \<open>ls\<close> is accepted and every line that
  starts with \<^verbatim>\<open>#\<close> after the end of the definitions has an integer behind the
  \<^verbatim>\<open>#\<close>.
\<close>

definition var_ok :: "string \<Rightarrow> bool" where
  "var_ok line =
     (case str_split line of _ # _ # w # _ # _ # _ \<Rightarrow> py_int w \<noteq> None | _ \<Rightarrow> False)"

fun lines_ok :: "bool \<Rightarrow> string list \<Rightarrow> bool" where
  "lines_ok d [] = True"
| "lines_ok d (raw # ls) =
     (let line = str_strip raw in
      if str_startswith line ''$var'' then var_ok line \<and> lines_ok d ls
      else if str_startswith line ''$enddefinitions'' then lines_ok False ls
      else if str_startswith line ''#'' \<and> \<not> d then py_int (drop 1 line) \<noteq> None \<and> lines_ok d ls
      else lines_ok d ls)"

text \<open>
  A state in which every stored integer has at most 4300 digits: the current time, and
  of every entry of the registry the width and the times of the history.
\<close>

definition signal_ok :: "signal \<Rightarrow> bool" where
  "signal_ok info =
     (int_str_ok (sig_width info) \<and> list_all (\<lambda>(t, v). int_str_ok t) (sig_values info))"

definition state_ok :: "state \<Rightarrow> bool" where
  "state_ok st =
     (int_str_ok (current_time st) \<and> list_all (\<lambda>(symbol, info). signal_ok info) (signals st))"

section \<open>Properties\<close>

subsection \<open>The dispatch on the first characters of a line\<close>

lemma str_startswith_Nil [simp]: "str_startswith s []"
  by (simp add: str_startswith_def)

lemma str_startswith_Cons:
  "str_startswith s (c # p) = (case s of [] \<Rightarrow> False | d # t \<Rightarrow> d = c \<and> str_startswith t p)"
  by (cases s) (auto simp: str_startswith_def)

text \<open>
  The four \<^verbatim>\<open>if\<close> statements of the loop body exclude each other: a line takes at most
  one of them.
\<close>

lemma parse_line_cases:
  "parse_line st raw =
     (let line = str_strip raw in
      if str_startswith line ''$var'' then parse_var st line
      else if str_startswith line ''$enddefinitions'' then Inr (st\<lparr>in_definitions := False\<rparr>)
      else if str_startswith line ''#'' then parse_timestamp st line
      else if str_startswith line ''$'' then Inr st
      else parse_change st line)"
proof (cases "str_strip raw")
  case Nil
  then show ?thesis
    by (simp add: parse_line_def parse_var_def parse_enddefinitions_def parse_timestamp_def
        parse_change_def str_startswith_Cons)
next
  case (Cons c cs)
  then show ?thesis
    by (auto simp add: parse_line_def parse_var_def parse_enddefinitions_def
        parse_timestamp_def parse_change_def str_startswith_Cons Let_def
        split: list.splits option.splits sum.splits)
qed

lemmas eval_defs =
  parse_vcd_def init_def parse_line_def parse_var_def parse_enddefinitions_def
  parse_timestamp_def parse_change_def decode_change_def store_change_def record_change_def
  bucket_def str_strip_def str_startswith_def str_split_def py_int_def isspace_def isdigit_def
  digit_value_def int_space_def max_str_digits_def

subsection \<open>Scenario A\<close>

text \<open>
  Claim C2. The six lines \<^verbatim>\<open>$var wire 1 ! clk $end\<close>, \<^verbatim>\<open>$enddefinitions $end\<close>,
  \<^verbatim>\<open>#0\<close>, \<^verbatim>\<open>1!\<close>, \<^verbatim>\<open>#5\<close>, \<^verbatim>\<open>0!\<close> parse without error to a registry
  with the single entry of symbol \<^verbatim>\<open>!\<close>, named clk, of width 1 and kind wire, with the
  history [(0, '1'), (5, '0')], and to the timeline with the two buckets
  0: [('!', '1')] and 5: [('!', '0')].
\<close>

theorem scenario_A:
  "parse_vcd [''$var wire 1 ! clk $end'', ''$enddefinitions $end'', ''#0'', ''1!'', ''#5'', ''0!'']
   = Inr ([(''!'', \<lparr>sig_name = ''clk'', sig_width = 1, sig_type = ''wire'',
                     sig_values = [(0, ''1''), (5, ''0'')]\<rparr>)],
          [(0, [(''!'', ''1'')]), (5, [(''!'', ''0'')])])"
  by (simp add: eval_defs)

subsection \<open>Tokens and decoding\<close>

lemma split_from_nonempty: "w \<noteq> [] \<Longrightarrow> split_from w s \<noteq> []"
  by (induction s arbitrary: w) auto

lemma split_from_tokens: "[] \<notin> set (split_from w s)"
  by (induction s arbitrary: w) auto

lemma str_split_tokens: "t \<in> set (str_split s) \<Longrightarrow> t \<noteq> []"
  using split_from_tokens [of "[]" s] by (auto simp: str_split_def)

lemma str_split_b: "str_startswith line ''b'' \<Longrightarrow> str_split line \<noteq> []"
  by (cases line) (auto simp: str_startswith_Cons str_split_def isspace_def split_from_nonempty)

lemma decode_change_total: "\<exists>r. decode_change line = Inr r"
  using str_split_b [of line]
  by (auto simp: decode_change_def split: list.splits)

lemma decode_change_value: "decode_change line = Inr (Some s, v) \<Longrightarrow> v \<noteq> None"
  by (auto simp: decode_change_def split: if_splits list.splits)

lemma decode_change_symbol_vector:
  "decode_change line = Inr (Some s, v) \<Longrightarrow> str_startswith line ''b'' \<Longrightarrow> \<not> (length line \<ge> 2 \<and> hd line \<in> set ''01xX'') \<Longrightarrow> s \<noteq> []"
  using str_split_tokens [of s line]
  by (auto simp: decode_change_def split: if_splits list.splits)

lemma parse_change_recorded:
  "\<not> in_definitions st \<Longrightarrow> change_line line \<Longrightarrow>
   parse_change st line =
     Inr (case recorded (signals st) line of [] \<Rightarrow> st | (s, v) # _ \<Rightarrow> record_change st s v)"
  using decode_change_total [of line] decode_change_value [of line]
  by (auto simp: parse_change_def change_line_def recorded_def store_change_def
      split: option.splits)

lemma parse_line_change:
  "\<not> in_definitions st \<Longrightarrow> change_line (str_strip raw) \<Longrightarrow>
   parse_line st raw =
     Inr (case recorded (signals st) (str_strip raw) of [] \<Rightarrow> st | (s, v) # _ \<Rightarrow> record_change st s v)"
  using parse_change_recorded [of st "str_strip raw"]
  by (cases "str_strip raw") (auto simp: parse_line_cases change_line_def str_startswith_Cons Let_def)

lemma parse_lines_append:
  "parse_lines st (xs @ ys) =
     (case parse_lines st xs of Inl e \<Rightarrow> Inl e | Inr st' \<Rightarrow> parse_lines st' ys)"
  by (induction xs arbitrary: st) (auto split: sum.splits)

lemma record_change_signals:
  "map_of (signals (record_change st s v)) k =
     (if k = s
      then map_option (\<lambda>info. info\<lparr>sig_values := sig_values info @ [(current_time st, v)]\<rparr>)
             (map_of (signals st) s)
      else map_of (signals st) k)"
  by (auto simp: record_change_def map_of_map_entry split: option.splits)

lemma record_change_bucket:
  "bucket (timeline (record_change st s v)) t =
     (if t = current_time st then bucket (timeline st) t @ [(s, v)] else bucket (timeline st) t)"
  by (simp add: record_change_def bucket_def update_conv')

lemma record_change_rest [simp]:
  "current_time (record_change st s v) = current_time st"
  "in_definitions (record_change st s v) = in_definitions st"
  by (simp_all add: record_change_def)


lemma recorded_cong:
  "(\<And>s. (map_of a s = None) = (map_of b s = None)) \<Longrightarrow> recorded a line = recorded b line"
  by (auto simp: recorded_def split: sum.splits option.splits)

lemma events_snoc: "events sigs (ls @ [l]) = events sigs ls @ recorded sigs (str_strip l)"
  by (simp add: events_def)

lemma recorded_cases:
  "recorded sigs line = [] \<or> (\<exists>s v. recorded sigs line = [(s, v)] \<and> map_of sigs s \<noteq> None)"
  by (auto simp: recorded_def split: sum.splits option.splits)

subsection \<open>Both views record the same events\<close>

text \<open>
  Claim C5. Take a run of value-change lines read at one current time, after the
  definitions. The parse of the run does not fail and leaves the time and the phase as
  they were. Every decoded change whose symbol is declared (the list \<open>events\<close>, in file
  order) is written twice: for each symbol, the history of its signal grows by exactly
  the values of its own changes, each paired with the current time, in file order; and
  the timeline bucket of the current time grows by exactly the whole list of pairs, in
  the same order. No other history and no other bucket changes.
\<close>

theorem both_views:
  assumes "\<not> in_definitions st" and "\<forall>raw \<in> set ls. change_line (str_strip raw)"
  shows "\<exists>st'. parse_lines st ls = Inr st' \<and>
           current_time st' = current_time st \<and> \<not> in_definitions st' \<and>
           (\<forall>s. map_of (signals st') s =
                  map_option
                    (\<lambda>info. info\<lparr>sig_values := sig_values info
                        @ map (\<lambda>(s', v). (current_time st, v))
                            (filter (\<lambda>(s', v). s' = s) (events (signals st) ls))\<rparr>)
                    (map_of (signals st) s)) \<and>
           (\<forall>t. bucket (timeline st') t =
                  (if t = current_time st then bucket (timeline st) t @ events (signals st) ls
                   else bucket (timeline st) t))"
  using assms(2)
proof (induction ls rule: rev_induct)
  case Nil
  show ?case using assms(1) by (simp add: events_def option.map_ident)
next
  case (snoc l ls)
  then obtain st1 where run: "parse_lines st ls = Inr st1"
    and time: "current_time st1 = current_time st" and phase: "\<not> in_definitions st1"
    and hist: "\<And>s. map_of (signals st1) s =
                  map_option
                    (\<lambda>info. info\<lparr>sig_values := sig_values info
                        @ map (\<lambda>(s', v). (current_time st, v))
                            (filter (\<lambda>(s', v). s' = s) (events (signals st) ls))\<rparr>)
                    (map_of (signals st) s)"
    and buck: "\<And>t. bucket (timeline st1) t =
                  (if t = current_time st then bucket (timeline st) t @ events (signals st) ls
                   else bucket (timeline st) t)"
    by auto
  from snoc.prems have cl: "change_line (str_strip l)" by simp
  have same: "recorded (signals st1) (str_strip l) = recorded (signals st) (str_strip l)"
    by (rule recorded_cong) (simp add: hist)
  let ?r = "recorded (signals st) (str_strip l)"
  let ?st2 = "case ?r of [] \<Rightarrow> st1 | (s, v) # _ \<Rightarrow> record_change st1 s v"
  have step: "parse_line st1 l = Inr ?st2"
    using parse_line_change [OF phase cl] same by simp
  have run2: "parse_lines st (ls @ [l]) = Inr ?st2"
    by (simp add: parse_lines_append run step)
  from recorded_cases [of "signals st" "str_strip l"]
  show ?case
  proof
    assume e: "?r = []"
    then show ?thesis
      using run2 time phase hist buck by (simp add: events_snoc)
  next
    assume "\<exists>s v. ?r = [(s, v)] \<and> map_of (signals st) s \<noteq> None"
    then obtain s v where r: "?r = [(s, v)]" by blast
    have st2: "?st2 = record_change st1 s v" by (simp add: r)
    show ?thesis
      unfolding run2 st2
      by (auto simp: events_snoc r record_change_signals record_change_bucket hist buck time phase
          option.map_comp comp_def intro!: map_option_cong)
  qed
qed

theorem both_views_witness:
  "\<exists>st'. parse_lines
           \<lparr>signals = [(''!'', \<lparr>sig_name = ''clk'', sig_width = 1, sig_type = ''wire'',
                                sig_values = [(0, ''0'')]\<rparr>)],
            timeline = [(0, [(''!'', ''0'')])], current_time = 5, in_definitions = False\<rparr>
           [''1!'', ''0$'', ''x!''] = Inr st' \<and>
         map_of (signals st') ''!'' =
           Some \<lparr>sig_name = ''clk'', sig_width = 1, sig_type = ''wire'',
                   sig_values = [(0, ''0''), (5, ''1''), (5, ''x'')]\<rparr> \<and>
         bucket (timeline st') 5 = [(''!'', ''1''), (''!'', ''x'')] \<and>
         bucket (timeline st') 0 = [(''!'', ''0'')]"
proof -
  let ?st = "\<lparr>signals = [(''!'', \<lparr>sig_name = ''clk'', sig_width = 1, sig_type = ''wire'',
                                sig_values = [(0, ''0'')]\<rparr>)],
            timeline = [(0, [(''!'', ''0'')])], current_time = 5, in_definitions = False\<rparr>"
  let ?ls = "[''1!'', ''0$'', ''x!'']"
  have phase: "\<not> in_definitions ?st" by simp
  have lines: "\<forall>raw \<in> set ?ls. change_line (str_strip raw)"
    by (simp add: change_line_def str_strip_def str_startswith_def isspace_def)
  have ev: "events (signals ?st) ?ls = [(''!'', ''1''), (''!'', ''x'')]"
    by (simp add: events_def recorded_def decode_change_def str_strip_def str_startswith_def
        isspace_def)
  from both_views [OF phase lines] obtain st' where
    run: "parse_lines ?st ?ls = Inr st'"
    and hist: "\<And>s. map_of (signals st') s =
                  map_option
                    (\<lambda>info. info\<lparr>sig_values := sig_values info
                        @ map (\<lambda>(s', v). (current_time ?st, v))
                            (filter (\<lambda>(s', v). s' = s) (events (signals ?st) ?ls))\<rparr>)
                    (map_of (signals ?st) s)"
    and buck: "\<And>t. bucket (timeline st') t =
                  (if t = current_time ?st
                   then bucket (timeline ?st) t @ events (signals ?st) ?ls
                   else bucket (timeline ?st) t)"
    by blast
  have "map_of (signals st') ''!'' =
           Some \<lparr>sig_name = ''clk'', sig_width = 1, sig_type = ''wire'',
                   sig_values = [(0, ''0''), (5, ''1''), (5, ''x'')]\<rparr>"
    unfolding hist [of "''!''"] ev by simp
  moreover have "bucket (timeline st') 5 = [(''!'', ''1''), (''!'', ''x'')]"
    unfolding buck [of 5] ev by (simp add: bucket_def)
  moreover have "bucket (timeline st') 0 = [(''!'', ''0'')]"
    unfolding buck [of 0] by (simp add: bucket_def)
  ultimately show ?thesis using run by blast
qed

lemmas str_defs = str_strip_def str_startswith_def str_split_def py_int_def isspace_def
  isdigit_def digit_value_def int_space_def max_str_digits_def

subsection \<open>Scalar value changes\<close>

text \<open>
  Claim C3, as the code has it. After the definitions, take a line whose trimmed text
  has a first character among \<^verbatim>\<open>0\<close>, \<^verbatim>\<open>1\<close>, \<^verbatim>\<open>x\<close>, \<^verbatim>\<open>X\<close> and at least
  one more character. The value is that first character alone, the symbol is all the
  rest of the line, and the change is recorded (history and timeline) when the symbol is a
  key of the registry; otherwise the state stays as it is. The characters \<^verbatim>\<open>z\<close>
  and \<^verbatim>\<open>Z\<close> are not in the test of line 83, so the statement does not speak of them.
\<close>

theorem scalar_change:
  assumes "\<not> in_definitions st" and "str_strip raw = c # symbol" and "symbol \<noteq> []"
    and "c \<in> set ''01xX''"
  shows "decode_change (str_strip raw) = Inr (Some symbol, Some [c]) \<and>
         parse_line st raw =
           Inr (if map_of (signals st) symbol \<noteq> None then record_change st symbol [c] else st)"
proof -
  have len: "length (c # symbol) \<ge> 2" using assms(3) by (cases symbol) auto
  have dec: "decode_change (c # symbol) = Inr (Some symbol, Some [c])"
    using assms(4) len by (simp add: decode_change_def)
  have cl: "change_line (c # symbol)"
    using assms(4) by (auto simp: change_line_def str_startswith_Cons)
  have "parse_line st raw =
     Inr (case recorded (signals st) (c # symbol) of [] \<Rightarrow> st | (s, v) # _ \<Rightarrow> record_change st s v)"
    using parse_line_change [of st raw] assms(1,2) cl by simp
  then show ?thesis
    using dec assms(2,3) by (simp add: recorded_def)
qed

theorem scalar_change_witness:
  "parse_line
     \<lparr>signals = [(''!'', \<lparr>sig_name = ''clk'', sig_width = 1, sig_type = ''wire'',
                          sig_values = []\<rparr>)],
      timeline = [], current_time = 5, in_definitions = False\<rparr> ''  x!  ''
   = Inr \<lparr>signals = [(''!'', \<lparr>sig_name = ''clk'', sig_width = 1, sig_type = ''wire'',
                              sig_values = [(5, ''x'')]\<rparr>)],
          timeline = [(5, [(''!'', ''x'')])], current_time = 5, in_definitions = False\<rparr>"
proof -
  let ?st = "\<lparr>signals = [(''!'', \<lparr>sig_name = ''clk'', sig_width = 1, sig_type = ''wire'',
                          sig_values = []\<rparr>)],
      timeline = [], current_time = 5, in_definitions = False\<rparr>"
  have 1: "\<not> in_definitions ?st" by simp
  have 2: "str_strip ''  x!  '' = CHR ''x'' # ''!''" by (simp add: str_strip_def isspace_def)
  have 3: "''!'' \<noteq> []" by simp
  have 4: "CHR ''x'' \<in> set ''01xX''" by simp
  show ?thesis
    using scalar_change [OF 1 2 3 4] by (simp add: record_change_def bucket_def)
qed

text \<open>
  The claim as written also lists \<^verbatim>\<open>z\<close> and \<^verbatim>\<open>Z\<close>. The line \<^verbatim>\<open>z!\<close>, read with
  \<^verbatim>\<open>!\<close> declared, takes neither branch of the decoding: the history of \<^verbatim>\<open>!\<close>
  stays empty and the timeline has no bucket.
\<close>

theorem scalar_z_not_recorded:
  "parse_vcd [''$var wire 1 ! clk $end'', ''$enddefinitions $end'', ''#0'', ''z!'']
   = Inr ([(''!'', \<lparr>sig_name = ''clk'', sig_width = 1, sig_type = ''wire'', sig_values = []\<rparr>)], [])"
  by (simp add: eval_defs)

subsection \<open>Changes of undeclared symbols\<close>

text \<open>
  Claim C4. A line that starts with neither \<^verbatim>\<open>$\<close> nor \<^verbatim>\<open>#\<close> and decodes to a
  symbol that is not a key of the registry leaves the whole state as it was, in either
  phase: no error, no history and no bucket touched, the current time unchanged.
\<close>

theorem orphan_change:
  assumes "\<not> str_startswith (str_strip raw) ''$''" and "\<not> str_startswith (str_strip raw) ''#''"
    and "decode_change (str_strip raw) = Inr (Some s, v)"
    and "map_of (signals st) s = None"
  shows "parse_line st raw = Inr st"
proof -
  have "\<not> str_startswith (str_strip raw) ''$var''"
       "\<not> str_startswith (str_strip raw) ''$enddefinitions''"
    using assms(1) by (auto simp: str_startswith_Cons split: list.splits)
  then have "parse_line st raw = parse_change st (str_strip raw)"
    using assms(1,2) by (simp add: parse_line_cases Let_def)
  then show ?thesis
    using assms(3,4) by (simp add: parse_change_def store_change_def)
qed

theorem orphan_change_witness:
  "parse_line
     \<lparr>signals = [(''!'', \<lparr>sig_name = ''clk'', sig_width = 1, sig_type = ''wire'',
                          sig_values = [(0, ''1'')]\<rparr>)],
      timeline = [(0, [(''!'', ''1'')])], current_time = 5, in_definitions = False\<rparr> ''1$''
   = Inr \<lparr>signals = [(''!'', \<lparr>sig_name = ''clk'', sig_width = 1, sig_type = ''wire'',
                          sig_values = [(0, ''1'')]\<rparr>)],
      timeline = [(0, [(''!'', ''1'')])], current_time = 5, in_definitions = False\<rparr>"
proof -
  have 1: "\<not> str_startswith (str_strip ''1$'') ''$''"
    and 2: "\<not> str_startswith (str_strip ''1$'') ''#''"
    by (simp_all add: str_strip_def isspace_def str_startswith_def)
  have 3: "decode_change (str_strip ''1$'') = Inr (Some ''$'', Some ''1'')"
    by (simp add: decode_change_def str_strip_def isspace_def)
  show ?thesis
    by (rule orphan_change [OF 1 2 3]) simp
qed

subsection \<open>Declarations\<close>

text \<open>
  What a declaration line with five fields or more and an integer width does, whatever
  the state it is read in.
\<close>

lemma parse_line_var:
  assumes "str_startswith (str_strip raw) ''$var''"
    and "str_split (str_strip raw) = kw # kind # w # symbol # nm # rest"
    and "py_int w = Some n"
  shows "parse_line st raw =
           Inr (st\<lparr>signals :=
                  AList.update symbol
                    \<lparr>sig_name = nm, sig_width = n, sig_type = kind, sig_values = []\<rparr>
                    (signals st)\<rparr>)"
  using assms by (simp add: parse_line_cases parse_var_def)

text \<open>
  Claim C6. A second valid declaration of a symbol that already has an entry replaces
  name, width and kind by those of the new line and leaves the history empty, whatever
  it held. The other entries, the order of the keys, the timeline, the time and the
  phase are untouched.
\<close>

theorem redeclare:
  assumes "str_startswith (str_strip raw) ''$var''"
    and "str_split (str_strip raw) = kw # kind # w # symbol # nm # rest"
    and "py_int w = Some n"
    and "map_of (signals st) symbol = Some old"
  shows "\<exists>st'. parse_line st raw = Inr st' \<and>
           map_of (signals st') symbol =
             Some \<lparr>sig_name = nm, sig_width = n, sig_type = kind, sig_values = []\<rparr> \<and>
           (\<forall>k. k \<noteq> symbol \<longrightarrow> map_of (signals st') k = map_of (signals st) k) \<and>
           map fst (signals st') = map fst (signals st) \<and>
           timeline st' = timeline st \<and> current_time st' = current_time st \<and>
           in_definitions st' = in_definitions st"
proof -
  have "symbol \<in> fst ` set (signals st)"
    using assms(4) by (metis map_of_eq_None_iff option.distinct(1))
  then show ?thesis
    using parse_line_var [OF assms(1-3), of st]
    by (simp add: update_conv' update_keys)
qed

theorem redeclare_witness:
  "\<exists>st'. parse_line
           \<lparr>signals = [(''!'', \<lparr>sig_name = ''clk'', sig_width = 1, sig_type = ''wire'',
                                sig_values = [(0, ''1'')]\<rparr>),
                       (''#'', \<lparr>sig_name = ''m_data'', sig_width = 8, sig_type = ''reg'',
                                sig_values = []\<rparr>)],
            timeline = [(0, [(''!'', ''1'')])], current_time = 0, in_definitions = True\<rparr>
           ''$var reg 4 ! cnt $end'' = Inr st' \<and>
         map_of (signals st') ''!'' =
           Some \<lparr>sig_name = ''cnt'', sig_width = 4, sig_type = ''reg'', sig_values = []\<rparr> \<and>
         map fst (signals st') = [''!'', ''#'']"
proof -
  let ?raw = "''$var reg 4 ! cnt $end''"
  let ?old = "\<lparr>sig_name = ''clk'', sig_width = 1, sig_type = ''wire'',
               sig_values = [(0, ''1'')]\<rparr>"
  let ?st = "\<lparr>signals = [(''!'', ?old),
                       (''#'', \<lparr>sig_name = ''m_data'', sig_width = 8, sig_type = ''reg'',
                                sig_values = []\<rparr>)],
            timeline = [(0, [(''!'', ''1'')])], current_time = 0, in_definitions = True\<rparr>"
  have 1: "str_startswith (str_strip ?raw) ''$var''" by (simp add: str_defs)
  have 2: "str_split (str_strip ?raw) = ''$var'' # ''reg'' # ''4'' # ''!'' # ''cnt'' # [''$end'']"
    by (simp add: str_defs)
  have 3: "py_int ''4'' = Some 4" by (simp add: str_defs)
  have 4: "map_of (signals ?st) ''!'' = Some ?old" by simp
  show ?thesis
    using redeclare [OF 1 2 3 4] by auto
qed

text \<open>
  Claim C10. The \<^verbatim>\<open>$var\<close> branch does not look at the phase: after the end of the
  definitions a valid declaration line still stores its entry, new or overwritten, with
  an empty history. The timeline keeps what it had, and the phase stays the second one.
\<close>

theorem var_after_enddefinitions:
  assumes "\<not> in_definitions st"
    and "str_startswith (str_strip raw) ''$var''"
    and "str_split (str_strip raw) = kw # kind # w # symbol # nm # rest"
    and "py_int w = Some n"
  shows "\<exists>st'. parse_line st raw = Inr st' \<and>
           signals st' =
             AList.update symbol
               \<lparr>sig_name = nm, sig_width = n, sig_type = kind, sig_values = []\<rparr> (signals st) \<and>
           map_of (signals st') symbol =
             Some \<lparr>sig_name = nm, sig_width = n, sig_type = kind, sig_values = []\<rparr> \<and>
           timeline st' = timeline st \<and> current_time st' = current_time st \<and>
           \<not> in_definitions st'"
  using parse_line_var [OF assms(2-4), of st] assms(1)
  by (simp add: update_conv')

theorem var_after_enddefinitions_witness:
  "\<exists>st'. parse_line
           \<lparr>signals = [(''!'', \<lparr>sig_name = ''clk'', sig_width = 1, sig_type = ''wire'',
                                sig_values = [(0, ''1'')]\<rparr>)],
            timeline = [(0, [(''!'', ''1'')])], current_time = 0, in_definitions = False\<rparr>
           ''$var reg 4 ! cnt $end'' = Inr st' \<and>
         signals st' =
           [(''!'', \<lparr>sig_name = ''cnt'', sig_width = 4, sig_type = ''reg'', sig_values = []\<rparr>)] \<and>
         timeline st' = [(0, [(''!'', ''1'')])] \<and> \<not> in_definitions st'"
proof -
  let ?raw = "''$var reg 4 ! cnt $end''"
  let ?st = "\<lparr>signals = [(''!'', \<lparr>sig_name = ''clk'', sig_width = 1, sig_type = ''wire'',
                                sig_values = [(0, ''1'')]\<rparr>)],
            timeline = [(0, [(''!'', ''1'')])], current_time = 0, in_definitions = False\<rparr>"
  have 0: "\<not> in_definitions ?st" by simp
  have 1: "str_startswith (str_strip ?raw) ''$var''" by (simp add: str_defs)
  have 2: "str_split (str_strip ?raw) = ''$var'' # ''reg'' # ''4'' # ''!'' # ''cnt'' # [''$end'']"
    by (simp add: str_defs)
  have 3: "py_int ''4'' = Some 4" by (simp add: str_defs)
  show ?thesis
    using var_after_enddefinitions [OF 0 1 2 3] by auto
qed

subsection \<open>The two phases\<close>

text \<open>What one line, and then a run of lines, can do to the phase and to the time.\<close>

lemma store_change_rest [simp]:
  "current_time (store_change st symbol v) = current_time st"
  "in_definitions (store_change st symbol v) = in_definitions st"
  by (simp_all add: store_change_def split: option.splits)

lemma parse_var_rest:
  "parse_var st line = Inr st' \<Longrightarrow>
   current_time st' = current_time st \<and> in_definitions st' = in_definitions st"
  by (auto simp: parse_var_def split: if_splits list.splits option.splits)

lemma parse_timestamp_rest:
  "parse_timestamp st line = Inr st' \<Longrightarrow>
   in_definitions st' = in_definitions st \<and> (in_definitions st \<longrightarrow> st' = st)"
  by (auto simp: parse_timestamp_def split: if_splits option.splits)

lemma parse_change_rest:
  "parse_change st line = Inr st' \<Longrightarrow>
   current_time st' = current_time st \<and> in_definitions st' = in_definitions st"
  by (auto simp: parse_change_def split: if_splits sum.splits)

lemma parse_line_phase:
  "parse_line st raw = Inr st' \<Longrightarrow>
   in_definitions st' =
     (in_definitions st \<and> \<not> str_startswith (str_strip raw) ''$enddefinitions'')"
  using parse_var_rest [of st "str_strip raw" st'] parse_timestamp_rest [of st "str_strip raw" st']
    parse_change_rest [of st "str_strip raw" st']
  by (auto simp: parse_line_cases Let_def str_startswith_Cons split: if_splits list.splits)

lemma parse_line_time:
  "parse_line st raw = Inr st' \<Longrightarrow> in_definitions st \<Longrightarrow> current_time st' = current_time st"
  using parse_var_rest [of st "str_strip raw" st'] parse_timestamp_rest [of st "str_strip raw" st']
    parse_change_rest [of st "str_strip raw" st']
  by (auto simp: parse_line_cases Let_def split: if_splits)

lemma parse_lines_phase:
  "parse_lines st ls = Inr st' \<Longrightarrow> \<not> in_definitions st \<Longrightarrow> \<not> in_definitions st'"
proof (induction ls arbitrary: st)
  case Nil
  then show ?case by simp
next
  case (Cons l ls)
  then obtain st1 where 1: "parse_line st l = Inr st1" and 2: "parse_lines st1 ls = Inr st'"
    by (auto split: sum.splits)
  from parse_line_phase [OF 1] Cons.prems(2) have "\<not> in_definitions st1" by simp
  with Cons.IH [OF 2] show ?case .
qed

lemma parse_lines_definitions:
  "parse_lines st ls = Inr st' \<Longrightarrow> in_definitions st' \<Longrightarrow>
   in_definitions st \<and> current_time st' = current_time st"
proof (induction ls arbitrary: st)
  case Nil
  then show ?case by simp
next
  case (Cons l ls)
  then obtain st1 where 1: "parse_line st l = Inr st1" and 2: "parse_lines st1 ls = Inr st'"
    by (auto split: sum.splits)
  from Cons.IH [OF 2 Cons.prems(2)]
  have a: "in_definitions st1" and b: "current_time st' = current_time st1" by simp_all
  from parse_line_phase [OF 1] a have c: "in_definitions st" by simp
  with parse_line_time [OF 1] b show ?case by simp
qed

text \<open>
  Claim C7. First: if a line of the file starts with \<^verbatim>\<open>$enddefinitions\<close>, then after
  any lines that follow it the parser is in the second phase. Second: from the second
  phase no run of lines leads back. Third: in the first phase a line that starts with
  \<^verbatim>\<open>#\<close> changes nothing at all. Fourth: whenever a parse from the start is still in
  the first phase, the current time is 0.
\<close>

theorem phases_of_parse:
  "(str_startswith (str_strip marker) ''$enddefinitions'' \<and>
      parse_lines st (before @ marker # after) = Inr st' \<longrightarrow> \<not> in_definitions st') \<and>
   (\<not> in_definitions st \<and> parse_lines st ls = Inr st' \<longrightarrow> \<not> in_definitions st') \<and>
   (in_definitions st \<and> str_startswith (str_strip raw) ''#'' \<longrightarrow> parse_line st raw = Inr st) \<and>
   (parse_lines init ls = Inr st' \<and> in_definitions st' \<longrightarrow> current_time st' = 0)"
proof (intro conjI impI)
  assume a: "str_startswith (str_strip marker) ''$enddefinitions'' \<and>
      parse_lines st (before @ marker # after) = Inr st'"
  then obtain st1 st2 where 1: "parse_lines st before = Inr st1"
    and 2: "parse_line st1 marker = Inr st2" and 3: "parse_lines st2 after = Inr st'"
    by (auto simp: parse_lines_append split: sum.splits)
  from parse_line_phase [OF 2] a have "\<not> in_definitions st2" by simp
  with parse_lines_phase [OF 3] show "\<not> in_definitions st'" .
next
  assume "\<not> in_definitions st \<and> parse_lines st ls = Inr st'"
  then show "\<not> in_definitions st'" using parse_lines_phase by blast
next
  assume "in_definitions st \<and> str_startswith (str_strip raw) ''#''"
  then show "parse_line st raw = Inr st"
    by (auto simp: parse_line_cases Let_def parse_timestamp_def str_startswith_Cons
        split: list.splits)
next
  assume "parse_lines init ls = Inr st' \<and> in_definitions st'"
  then show "current_time st' = 0"
    using parse_lines_definitions [of init ls st'] by (simp add: init_def)
qed

theorem phases_of_parse_witness:
  "(\<exists>st'. parse_lines init [''#5'', ''$enddefinitions $end'', ''#7'', ''$var wire 1 ! clk $end'']
            = Inr st' \<and> \<not> in_definitions st' \<and> current_time st' = 7) \<and>
   parse_line init ''#5'' = Inr init \<and>
   (\<exists>st'. parse_lines init [''$var wire 1 ! clk $end'', ''#5''] = Inr st' \<and>
          in_definitions st' \<and> current_time st' = 0)"
proof -
  let ?s1 = "\<lparr>signals = [(''!'', \<lparr>sig_name = ''clk'', sig_width = 1, sig_type = ''wire'',
                                sig_values = []\<rparr>)],
              timeline = [], current_time = 7, in_definitions = False\<rparr>"
  let ?s2 = "\<lparr>signals = [(''!'', \<lparr>sig_name = ''clk'', sig_width = 1, sig_type = ''wire'',
                                sig_values = []\<rparr>)],
              timeline = [], current_time = 0, in_definitions = True\<rparr>"
  let ?s3 = "\<lparr>signals = [], timeline = [], current_time = 0, in_definitions = False\<rparr>"
  have r1: "parse_lines init ([''#5''] @ ''$enddefinitions $end'' # [''#7'', ''$var wire 1 ! clk $end''])
              = Inr ?s1"
    by (simp add: eval_defs)
  have m: "str_startswith (str_strip ''$enddefinitions $end'') ''$enddefinitions''"
    by (simp add: str_defs)
  have r2: "parse_lines init [''$var wire 1 ! clk $end'', ''#5''] = Inr ?s2"
    by (simp add: eval_defs)
  have r3: "parse_lines ?s3 [''#7'', ''$var wire 1 ! clk $end''] = Inr ?s1"
    by (simp add: eval_defs)
  have h: "str_startswith (str_strip ''#5'') ''#''" by (simp add: str_defs)
  have i: "in_definitions init" by (simp add: init_def)
  note p1 = phases_of_parse [where marker = "''$enddefinitions $end''" and st = init and before = "[''#5'']"
      and after = "[''#7'', ''$var wire 1 ! clk $end'']" and st' = ?s1 and raw = "''#5''"]
  note p2 = phases_of_parse [where st = ?s3 and ls = "[''#7'', ''$var wire 1 ! clk $end'']" and st' = ?s1]
  note p3 = phases_of_parse [where st' = ?s2 and ls = "[''$var wire 1 ! clk $end'', ''#5'']"]
  have a: "\<not> in_definitions ?s1" using p1 m r1 by blast
  have a': "\<not> in_definitions ?s1" using p2 r3 by simp
  have b: "parse_line init ''#5'' = Inr init" using p1 h i by blast
  have c: "current_time ?s2 = 0" using p3 r2 by simp
  show ?thesis using a a' b c r1 r2 by simp
qed

subsection \<open>Vector value changes\<close>

text \<open>
  Claim C8. After the definitions, a line whose trimmed text starts with \<^verbatim>\<open>b\<close> has at
  least one token. The value is the first token without its first character, the
  symbol is the second token. With no second token the state stays as it is; with one,
  the change is recorded when the symbol is a key of the registry. In particular the lines
  \<^verbatim>\<open>$var reg 8 # m_data $end\<close>, \<^verbatim>\<open>$enddefinitions $end\<close>, \<^verbatim>\<open>#10\<close>,
  \<^verbatim>\<open>b00001010 #\<close> give m_data the history [(10, '00001010')].
\<close>

theorem vector_change:
  "(\<not> in_definitions st \<and> str_startswith (str_strip raw) ''b'' \<longrightarrow>
      (\<exists>p0 ps. str_split (str_strip raw) = p0 # ps \<and>
         decode_change (str_strip raw) =
           Inr (case ps of [] \<Rightarrow> None | p1 # _ \<Rightarrow> Some p1, Some (drop 1 p0)) \<and>
         parse_line st raw =
           Inr (case ps of
                  [] \<Rightarrow> st
                | p1 # _ \<Rightarrow>
                    if map_of (signals st) p1 \<noteq> None then record_change st p1 (drop 1 p0)
                    else st))) \<and>
   parse_vcd [''$var reg 8 # m_data $end'', ''$enddefinitions $end'', ''#10'', ''b00001010 #'']
     = Inr ([(''#'', \<lparr>sig_name = ''m_data'', sig_width = 8, sig_type = ''reg'',
                       sig_values = [(10, ''00001010'')]\<rparr>)],
            [(10, [(''#'', ''00001010'')])])"
proof (intro conjI impI)
  assume a: "\<not> in_definitions st \<and> str_startswith (str_strip raw) ''b''"
  let ?line = "str_strip raw"
  from a obtain cs where line: "?line = CHR ''b'' # cs"
    by (auto simp: str_startswith_Cons split: list.splits)
  from a str_split_b obtain p0 ps where sp: "str_split ?line = p0 # ps"
    by (cases "str_split ?line") auto
  have dec: "decode_change ?line =
           Inr (case ps of [] \<Rightarrow> None | p1 # _ \<Rightarrow> Some p1, Some (drop 1 p0))"
    using a sp line by (simp add: decode_change_def)
  have cl: "change_line ?line"
    using line by (simp add: change_line_def str_startswith_Cons)
  have tok: "\<And>p1 rest. ps = p1 # rest \<Longrightarrow> p1 \<noteq> []"
    using str_split_tokens [of _ ?line] sp by simp
  have "parse_line st raw =
           Inr (case ps of
                  [] \<Rightarrow> st
                | p1 # _ \<Rightarrow>
                    if map_of (signals st) p1 \<noteq> None then record_change st p1 (drop 1 p0)
                    else st)"
    using parse_line_change [of st raw] a cl dec tok
    by (auto simp: recorded_def split: list.splits)
  with sp dec show "\<exists>p0 ps. str_split ?line = p0 # ps \<and>
         decode_change ?line =
           Inr (case ps of [] \<Rightarrow> None | p1 # _ \<Rightarrow> Some p1, Some (drop 1 p0)) \<and>
         parse_line st raw =
           Inr (case ps of
                  [] \<Rightarrow> st
                | p1 # _ \<Rightarrow>
                    if map_of (signals st) p1 \<noteq> None then record_change st p1 (drop 1 p0)
                    else st)"
    by blast
next
  show "parse_vcd [''$var reg 8 # m_data $end'', ''$enddefinitions $end'', ''#10'', ''b00001010 #'']
     = Inr ([(''#'', \<lparr>sig_name = ''m_data'', sig_width = 8, sig_type = ''reg'',
                       sig_values = [(10, ''00001010'')]\<rparr>)],
            [(10, [(''#'', ''00001010'')])])"
    by (simp add: eval_defs)
qed

theorem vector_change_witness:
  "parse_line
     \<lparr>signals = [(''#'', \<lparr>sig_name = ''m_data'', sig_width = 8, sig_type = ''reg'',
                          sig_values = []\<rparr>)],
      timeline = [], current_time = 10, in_definitions = False\<rparr> ''b00001010 #''
   = Inr \<lparr>signals = [(''#'', \<lparr>sig_name = ''m_data'', sig_width = 8, sig_type = ''reg'',
                              sig_values = [(10, ''00001010'')]\<rparr>)],
          timeline = [(10, [(''#'', ''00001010'')])], current_time = 10,
          in_definitions = False\<rparr> \<and>
   parse_line
     \<lparr>signals = [(''#'', \<lparr>sig_name = ''m_data'', sig_width = 8, sig_type = ''reg'',
                          sig_values = []\<rparr>)],
      timeline = [], current_time = 10, in_definitions = False\<rparr> ''b00001010''
   = Inr \<lparr>signals = [(''#'', \<lparr>sig_name = ''m_data'', sig_width = 8, sig_type = ''reg'',
                          sig_values = []\<rparr>)],
      timeline = [], current_time = 10, in_definitions = False\<rparr>"
proof -
  let ?st = "\<lparr>signals = [(''#'', \<lparr>sig_name = ''m_data'', sig_width = 8, sig_type = ''reg'',
                          sig_values = []\<rparr>)],
      timeline = [], current_time = 10, in_definitions = False\<rparr>"
  have 1: "\<not> in_definitions ?st \<and> str_startswith (str_strip ''b00001010 #'') ''b''"
    by (simp add: str_defs)
  have 2: "str_split (str_strip ''b00001010 #'') = [''b00001010'', ''#'']"
    by (simp add: str_defs)
  have 3: "\<not> in_definitions ?st \<and> str_startswith (str_strip ''b00001010'') ''b''"
    by (simp add: str_defs)
  have 4: "str_split (str_strip ''b00001010'') = [''b00001010'']"
    by (simp add: str_defs)
  have a: "parse_line ?st ''b00001010 #'' = Inr (record_change ?st ''#'' ''00001010'')"
    using vector_change [of ?st "''b00001010 #''", THEN conjunct1, rule_format, OF 1] 2
    by auto
  have b: "parse_line ?st ''b00001010'' = Inr ?st"
    using vector_change [of ?st "''b00001010''", THEN conjunct1, rule_format, OF 3] 4
    by auto
  show ?thesis
    unfolding a b by (simp add: record_change_def bucket_def)
qed

subsection \<open>Integers and their text\<close>

text \<open>
  What \<open>py_int\<close> returns has at most as many digits as the limit, so it can be printed;
  a run of more digits than the limit is refused.
\<close>

lemma int_str_ok_digits: "\<bar>n\<bar> < 10 ^ k \<Longrightarrow> k \<le> max_str_digits \<Longrightarrow> int_str_ok n"
proof -
  assume a: "\<bar>n\<bar> < 10 ^ k" and b: "k \<le> max_str_digits"
  have "(10::int) ^ k \<le> 10 ^ max_str_digits" using b by (simp add: power_increasing)
  with a show ?thesis unfolding int_str_ok_def by (rule less_le_trans)
qed

lemma int_str_ok_small: "\<bar>n\<bar> < 1000 \<Longrightarrow> int_str_ok n"
  by (rule int_str_ok_digits [of n 3]) (simp_all add: max_str_digits_def)

lemma digit_value_range: "isdigit c \<Longrightarrow> 0 \<le> digit_value c \<and> digit_value c \<le> 9"
  by (auto simp: isdigit_def digit_value_def)

lemma int_digits_bound:
  "int_digits acc prev cs = Some n \<Longrightarrow> 0 \<le> acc \<Longrightarrow>
   0 \<le> n \<and> n < (acc + 1) * 10 ^ length (filter isdigit cs)"
proof (induction acc prev cs rule: int_digits.induct)
  case (1 acc prev)
  then show ?case by (simp split: if_splits)
next
  case (2 acc prev c cs)
  show ?case
  proof (cases "isdigit c")
    case True
    with "2.prems" have run: "int_digits (10 * acc + digit_value c) True cs = Some n" by simp
    from digit_value_range [OF True] "2.prems"(2)
    have nn: "0 \<le> 10 * acc + digit_value c" and le: "10 * acc + digit_value c + 1 \<le> 10 * (acc + 1)"
      by simp_all
    from "2.IH"(1) [OF True run nn]
    have a: "0 \<le> n" and b: "n < (10 * acc + digit_value c + 1) * 10 ^ length (filter isdigit cs)"
      by simp_all
    have "(10 * acc + digit_value c + 1) * 10 ^ length (filter isdigit cs)
            \<le> (10 * (acc + 1)) * 10 ^ length (filter isdigit cs)"
      using le by (rule mult_right_mono) simp
    with b have "n < (10 * (acc + 1)) * 10 ^ length (filter isdigit cs)" by (rule less_le_trans)
    moreover have "(10 * (acc + 1)) * 10 ^ length (filter isdigit cs)
                     = (acc + 1) * 10 ^ length (filter isdigit (c # cs))"
      using True by simp
    ultimately show ?thesis using a by simp
  next
    case False
    with "2.prems" have u: "c = CHR ''_'' \<and> prev" and run: "int_digits acc False cs = Some n"
      by (simp_all split: if_splits)
    from "2.IH"(2) [OF False u run "2.prems"(2)] False show ?thesis by simp
  qed
qed

lemma py_int_str_ok: "py_int s = Some n \<Longrightarrow> int_str_ok n"
proof -
  assume a: "py_int s = Some n"
  then obtain c cs where "rev (dropWhile int_space (rev (dropWhile int_space s))) = c # cs"
    by (auto simp: py_int_def split: list.splits)
  define body where "body = (if c = CHR ''-'' \<or> c = CHR ''+'' then cs else c # cs)"
  from a \<open>_ = c # cs\<close> obtain m where m: "int_digits 0 False body = Some m"
    and len: "length (filter isdigit body) \<le> max_str_digits" and n: "\<bar>n\<bar> = \<bar>m\<bar>"
    by (auto simp: py_int_def body_def split: option.splits if_splits)
  from int_digits_bound [OF m] have "0 \<le> m" "m < 10 ^ length (filter isdigit body)" by simp_all
  with n have "\<bar>n\<bar> < 10 ^ length (filter isdigit body)" by simp
  then show ?thesis using len by (rule int_str_ok_digits)
qed

lemma int_digits_all:
  "list_all isdigit ds \<Longrightarrow> prev \<or> ds \<noteq> [] \<Longrightarrow> \<exists>n. int_digits acc prev ds = Some n"
  by (induction ds arbitrary: acc prev) auto

lemma py_int_too_long:
  assumes "list_all isdigit ds" and "max_str_digits < length ds"
  shows "py_int ds = None"
proof -
  from assms(2) obtain c cs where ds: "ds = c # cs" by (cases ds) auto
  have ns: "\<And>d. isdigit d \<Longrightarrow> \<not> int_space d \<and> d \<noteq> CHR ''-'' \<and> d \<noteq> CHR ''+''"
    by (auto simp: isdigit_def int_space_def)
  have c: "isdigit c" using assms(1) ds by simp
  have l: "isdigit (last ds)" using assms(1) ds by (metis last_in_set list.distinct(1) list_all_iff)
  have 1: "dropWhile int_space ds = ds" using c ns ds by simp
  have "\<not> int_space (hd (rev ds))" using l ns by (simp add: hd_rev)
  then have 2: "dropWhile int_space (rev ds) = rev ds"
    by (simp only: dropWhile_eq_self_iff) simp
  have f: "filter isdigit ds = ds" using assms(1) by (simp add: list_all_iff)
  show ?thesis
    using 1 2 f assms(2) c ns ds by (auto simp: py_int_def split: option.splits)
qed

subsection \<open>The rounding of a double\<close>

text \<open>
  \<open>exponent\<close> is the binary exponent, and \<open>round53\<close> moves a number by at most the
  fraction \<open>2 ^ 53\<close> of itself.
\<close>

lemma pow2_powi: "pow2 k = 2 powi k"
  by (simp add: pow2_def power_int_def inverse_eq_divide power_one_over flip: power_inverse)

lemma exponent_bounds:
  assumes "0 < q"
  shows "pow2 (exponent q) \<le> q \<and> q < pow2 (exponent q + 1)"
proof (cases "1 \<le> q")
  case True
  then have f: "0 < \<lfloor>q\<rfloor>" by linarith
  define n where "n = nat (bitlen \<lfloor>q\<rfloor> - 1)"
  have b: "1 \<le> bitlen \<lfloor>q\<rfloor>" using f by (auto simp: bitlen_alt_def)
  then have e: "exponent q = int n" and e1: "nat (bitlen \<lfloor>q\<rfloor>) = Suc n"
    using True by (auto simp: exponent_def n_def)
  from bitlen_bounds [OF f]
  have 1: "(2::int) ^ n \<le> \<lfloor>q\<rfloor>" and 2: "\<lfloor>q\<rfloor> < (2::int) ^ Suc n"
    unfolding e1 n_def by simp_all
  have "rat_of_int (2 ^ n) \<le> rat_of_int \<lfloor>q\<rfloor>" using 1 by (simp only: of_int_le_iff)
  also have "\<dots> \<le> q" by simp
  finally have lo: "(2::rat) ^ n \<le> q" by simp
  from 2 have "\<lfloor>q\<rfloor> + 1 \<le> 2 ^ Suc n" by simp
  then have "rat_of_int (\<lfloor>q\<rfloor> + 1) \<le> rat_of_int (2 ^ Suc n)" by (simp only: of_int_le_iff)
  moreover have "q < rat_of_int (\<lfloor>q\<rfloor> + 1)" by linarith
  ultimately have hi: "q < (2::rat) ^ Suc n" by simp
  have "pow2 (exponent q) = 2 ^ n" "pow2 (exponent q + 1) = 2 ^ Suc n"
    unfolding e by (simp_all add: pow2_def nat_add_distrib)
  with lo hi show ?thesis by simp
next
  case False
  then have q1: "q < 1" by simp
  define c where "c = \<lceil>1 / q\<rceil>"
  have inv: "1 < 1 / q" using assms q1 by simp
  have c2: "2 \<le> c" unfolding c_def using inv by linarith
  then have pos: "0 < c - 1" by simp
  define k where "k = nat (bitlen (c - 1))"
  have b: "1 \<le> bitlen (c - 1)" using pos by (auto simp: bitlen_alt_def)
  then obtain m where k: "k = Suc m" and m: "nat (bitlen (c - 1) - 1) = m"
    unfolding k_def by (cases "nat (bitlen (c - 1))") (auto simp: nat_diff_distrib)
  have e: "exponent q = - int k"
    using False b by (simp add: exponent_def c_def k_def)
  from bitlen_bounds [OF pos]
  have 1: "(2::int) ^ m \<le> c - 1" and 2: "c - 1 < (2::int) ^ k"
    unfolding k_def m [symmetric] by simp_all
  have "1 / q \<le> rat_of_int c" unfolding c_def by simp
  also have "rat_of_int c \<le> rat_of_int (2 ^ k)"
  proof -
    from 2 have "c \<le> 2 ^ k" by simp
    then show ?thesis by (simp only: of_int_le_iff)
  qed
  finally have "1 / q \<le> 2 ^ k" by simp
  then have lo: "1 / 2 ^ k \<le> q"
    using assms by (simp add: field_simps)
  have "rat_of_int (c - 1) < 1 / q" unfolding c_def by linarith
  moreover have "rat_of_int (2 ^ m) \<le> rat_of_int (c - 1)" using 1 by (simp only: of_int_le_iff)
  ultimately have "2 ^ m < 1 / q" by simp
  then have hi: "q < 1 / 2 ^ m"
    using assms by (simp add: field_simps)
  have "pow2 (exponent q) = 1 / 2 ^ k"
    unfolding e by (simp add: pow2_def k nat_add_distrib)
  moreover have "pow2 (exponent q + 1) = 1 / 2 ^ m"
    unfolding e k by (cases m) (simp_all add: pow2_def nat_add_distrib)
  ultimately show ?thesis using lo hi by simp
qed

lemma round_half_even_error: "\<bar>rat_of_int (round_half_even m) - m\<bar> \<le> 1 / 2"
proof -
  define r where "r = m - rat_of_int \<lfloor>m\<rfloor>"
  have r: "0 \<le> r" "r < 1" unfolding r_def by linarith+
  have m: "m = rat_of_int \<lfloor>m\<rfloor> + r" by (simp add: r_def)
  have "round_half_even m = \<lfloor>m\<rfloor> \<and> r \<le> 1 / 2 \<or> round_half_even m = \<lfloor>m\<rfloor> + 1 \<and> 1 / 2 \<le> r"
    unfolding round_half_even_def Let_def r_def [symmetric] by auto
  then show ?thesis
  proof
    assume a: "round_half_even m = \<lfloor>m\<rfloor> \<and> r \<le> 1 / 2"
    then have "rat_of_int (round_half_even m) - m = - r" using m by simp
    with a r show ?thesis by simp
  next
    assume a: "round_half_even m = \<lfloor>m\<rfloor> + 1 \<and> 1 / 2 \<le> r"
    then have "rat_of_int (round_half_even m) - m = 1 - r" using m by simp
    with a r show ?thesis by simp
  qed
qed

lemma round53_error:
  assumes "q \<noteq> 0"
  shows "\<bar>round53 q - q\<bar> \<le> \<bar>q\<bar> / 2 ^ 53"
proof -
  define a where "a = \<bar>q\<bar>"
  define u where "u = pow2 (exponent a - 52)"
  define R where "R = rat_of_int (round_half_even (a / u))"
  have a: "0 < a" using assms by (simp add: a_def)
  have u: "0 < u" by (simp add: u_def pow2_powi)
  have "u = pow2 (exponent a) / 2 ^ 52"
    by (simp add: u_def pow2_powi power_int_diff)
  with exponent_bounds [OF a] have ua: "u \<le> a / 2 ^ 52"
    by (simp add: divide_right_mono)
  have r: "round53 q = sgn q * (R * u)"
    using assms by (simp add: round53_def Let_def a_def u_def R_def mult.assoc)
  have "sgn q * (R * u) - sgn q * a = round53 q - q"
    unfolding r a_def by (simp only: sgn_mult_abs)
  then have "round53 q - q = sgn q * (R * u - a)"
    by (simp only: right_diff_distrib)
  then have "\<bar>round53 q - q\<bar> = \<bar>sgn q\<bar> * \<bar>R * u - a\<bar>"
    by (simp only: abs_mult)
  also have "\<bar>sgn q\<bar> = 1" using assms by (simp add: abs_sgn_eq)
  also have "R * u - a = (R - a / u) * u"
    using u by (simp add: left_diff_distrib)
  also have "\<bar>(R - a / u) * u\<bar> = \<bar>R - a / u\<bar> * u"
    using u by (simp add: abs_mult)
  finally have "\<bar>round53 q - q\<bar> = \<bar>R - a / u\<bar> * u" by simp
  also have "\<dots> \<le> (1 / 2) * u"
    unfolding R_def using round_half_even_error [of "a / u"] u by (intro mult_right_mono) simp_all
  also have "\<dots> \<le> (1 / 2) * (a / 2 ^ 52)"
    using ua by simp
  finally show ?thesis by (simp add: a_def)
qed

subsection \<open>What the parser stores can be printed\<close>

text \<open>
  Every width and every time that \<^verbatim>\<open>parse_vcd\<close> stores came out of \<^verbatim>\<open>int\<close>: the
  prints of lines 129 and 135 raise nothing on a registry that the parser built.
\<close>

lemma list_all_update:
  "list_all P al \<Longrightarrow> P (k, v) \<Longrightarrow> list_all P (AList.update k v al)"
  by (induction al) auto

lemma list_all_map_entry:
  "list_all P al \<Longrightarrow> (\<And>v. P (k, v) \<Longrightarrow> P (k, f v)) \<Longrightarrow> list_all P (AList.map_entry k f al)"
  by (induction al) auto

lemma state_ok_init: "state_ok init"
  by (simp add: state_ok_def init_def int_str_ok_small)

lemma state_ok_record: "state_ok st \<Longrightarrow> state_ok (record_change st s v)"
  by (auto simp: state_ok_def record_change_def signal_ok_def intro!: list_all_map_entry)

lemma state_ok_store: "state_ok st \<Longrightarrow> state_ok (store_change st symbol v)"
  by (auto simp: store_change_def state_ok_record split: option.splits)

lemma state_ok_var: "state_ok st \<Longrightarrow> parse_var st line = Inr st' \<Longrightarrow> state_ok st'"
  by (auto simp: parse_var_def state_ok_def signal_ok_def py_int_str_ok
      split: if_splits list.splits option.splits intro!: list_all_update)

lemma state_ok_timestamp: "state_ok st \<Longrightarrow> parse_timestamp st line = Inr st' \<Longrightarrow> state_ok st'"
  by (auto simp: parse_timestamp_def state_ok_def py_int_str_ok split: if_splits option.splits)

lemma state_ok_change: "state_ok st \<Longrightarrow> parse_change st line = Inr st' \<Longrightarrow> state_ok st'"
  by (auto simp: parse_change_def state_ok_store split: if_splits sum.splits)

lemma state_ok_line: "state_ok st \<Longrightarrow> parse_line st raw = Inr st' \<Longrightarrow> state_ok st'"
  using state_ok_var [of st "str_strip raw" st'] state_ok_timestamp [of st "str_strip raw" st']
    state_ok_change [of st "str_strip raw" st']
  by (auto simp: parse_line_cases Let_def state_ok_def split: if_splits)

lemma state_ok_lines: "state_ok st \<Longrightarrow> parse_lines st ls = Inr st' \<Longrightarrow> state_ok st'"
proof (induction ls arbitrary: st)
  case Nil
  then show ?case by simp
next
  case (Cons l ls)
  then obtain st1 where 1: "parse_line st l = Inr st1" and 2: "parse_lines st1 ls = Inr st'"
    by (auto split: sum.splits)
  from state_ok_line [OF Cons.prems(1) 1] Cons.IH 2 show ?case by blast
qed

lemma parse_vcd_printable:
  assumes "parse_vcd ls = Inr (signal_data, tline)"
    and "find_signal signal_data signal_name = Some info"
  shows "int_str_ok (sig_width info) \<and>
         list_all (\<lambda>(t, v). int_str_ok t) (take 10 (sig_values info))"
proof -
  from assms(1) obtain st where run: "parse_lines init ls = Inr st" and sd: "signal_data = signals st"
    by (auto simp: parse_vcd_def split: sum.splits)
  from state_ok_lines [OF state_ok_init run] have ok: "list_all (\<lambda>(symbol, info). signal_ok info) signal_data"
    by (simp add: state_ok_def sd)
  from assms(2) obtain symbol where "(symbol, info) \<in> set signal_data"
    by (auto simp: find_signal_def find_Some_iff) (metis nth_mem)
  with ok have "signal_ok info" by (auto simp: list_all_iff)
  then show ?thesis
    by (auto simp: signal_ok_def list_all_iff dest: in_set_takeD)
qed

subsection \<open>The clock analysis\<close>

text \<open>
  Claim C9, as the code has it. Let the analysis find the signal of the given name, and
  let its width and the times of its first ten entries have at most 4300 digits, as
  all that the parser stores has. Let the lower-cased name contain \<^verbatim>\<open>clk\<close>, let the
  history have at least three entries, at least two of them with the value \<^verbatim>\<open>1\<close>,
  and let the times \<open>t1\<close> and \<open>t2\<close> of the first two such entries differ, by less
  than \<open>2 ^ 1024 - 2 ^ 970\<close>. Then the report carries the period \<open>t2 - t1\<close> and, as
  the frequency for a time base of picoseconds, the double that the code computes:
  \<open>10 ^ 6\<close> divided by the period rounded to a double, the quotient rounded to a
  double.
\<close>

theorem clock_period:
  assumes "find_signal signal_data signal_name = Some info"
    and "int_str_ok (sig_width info)"
    and "list_all (\<lambda>(t, v). int_str_ok t) (take 10 (sig_values info))"
    and "str_contains (str_lower signal_name) ''clk''"
    and "length (sig_values info) \<ge> 3"
    and "map fst (filter (\<lambda>(t, v). v = ''1'') (sig_values info)) = t1 # t2 # later"
    and "t2 \<noteq> t1" and "\<bar>t2 - t1\<bar> < 2 ^ 1024 - 2 ^ 970"
  shows "analyze_signal signal_data signal_name =
           Inr (Some \<lparr>a_type = sig_type info, a_width = sig_width info,
                       a_transitions = length (sig_values info),
                       a_first = take 10 (sig_values info),
                       a_clock = Some (t2 - t1,
                                       round53 (1000000 / round53 (of_int (t2 - t1))))\<rparr>)"
  using assms by (simp add: analyze_signal_def clock_report_def Let_def)

lemma round53_3: "round53 (1000000 / round53 (of_int 3)) = 5726623061333333 / 17179869184"
  by code_simp

theorem clock_period_witness:
  "analyze_signal
     [(''!'', \<lparr>sig_name = ''sys_CLK'', sig_width = 1, sig_type = ''wire'',
               sig_values = [(0, ''1''), (1, ''0''), (3, ''1'')]\<rparr>)] ''sys_CLK''
   = Inr (Some \<lparr>a_type = ''wire'', a_width = 1, a_transitions = 3,
                 a_first = [(0, ''1''), (1, ''0''), (3, ''1'')],
                 a_clock = Some (3, 5726623061333333 / 17179869184)\<rparr>)"
proof -
  let ?info = "\<lparr>sig_name = ''sys_CLK'', sig_width = 1, sig_type = ''wire'',
               sig_values = [(0, ''1''), (1, ''0''), (3, ''1'')]\<rparr>"
  have 1: "find_signal [(''!'', ?info)] ''sys_CLK'' = Some ?info"
    by (simp add: find_signal_def)
  have 2: "int_str_ok (sig_width ?info)" by (simp add: int_str_ok_small)
  have 3: "list_all (\<lambda>(t, v). int_str_ok t) (take 10 (sig_values ?info))"
    by (simp add: int_str_ok_small)
  have 4: "str_contains (str_lower ''sys_CLK'') ''clk''"
    by code_simp
  have 5: "length (sig_values ?info) \<ge> 3" by simp
  have 6: "map fst (filter (\<lambda>(t, v). v = ''1'') (sig_values ?info)) = 0 # 3 # []" by simp
  have 7: "(3::int) \<noteq> 0" by simp
  have 8: "\<bar>3 - 0\<bar> < (2::int) ^ 1024 - 2 ^ 970" by simp
  show ?thesis using clock_period [OF 1 2 3 4 5 6 7 8] round53_3 by simp
qed

text \<open>
  The claim as written asks for no minimum number of entries. A history of exactly two
  entries, both \<^verbatim>\<open>1\<close>, fails the test \<^verbatim>\<open>len(...) >= 3\<close> of line 138: the report
  has no period.
\<close>

theorem two_entries_no_period:
  "analyze_signal
     [(''!'', \<lparr>sig_name = ''clk'', sig_width = 1, sig_type = ''wire'',
               sig_values = [(0, ''1''), (10, ''1'')]\<rparr>)] ''clk''
   = Inr (Some \<lparr>a_type = ''wire'', a_width = 1, a_transitions = 2,
                 a_first = [(0, ''1''), (10, ''1'')], a_clock = None\<rparr>)"
  by (simp add: analyze_signal_def clock_report_def find_signal_def int_str_ok_small)

text \<open>
  Two first \<^verbatim>\<open>1\<close> entries at the same time make the division of line 143 raise. The
  frequency at the period 3 is not the third of \<open>10 ^ 6\<close>, and at the period
  \<open>2 ^ 53 + 1\<close> the period itself is rounded first.
\<close>

lemma zero_period:
  "analyze_signal
     [(''!'', \<lparr>sig_name = ''clk'', sig_width = 1, sig_type = ''wire'',
               sig_values = [(0, ''1''), (0, ''0''), (0, ''1'')]\<rparr>)] ''clk''
   = Inl ZeroDivisionError"
  by (simp add: analyze_signal_def clock_report_def find_signal_def str_lower_def
      char_lower_def str_startswith_def int_str_ok_small)

lemma round53_ties: "round53 (of_int (2 ^ 53 + 1)) = 2 ^ 53"
  "round53 (1000000 / round53 (of_int (2 ^ 53 + 1))) = 1000000 / 2 ^ 53"
  by code_simp+

subsection \<open>When the parse completes\<close>

text \<open>
  A declaration line is accepted exactly when it is \<open>var_ok\<close>; the value-change branch
  never raises; so one line succeeds exactly as \<open>lines_ok\<close> says.
\<close>

lemma parse_var_ok: "(\<exists>st'. parse_var st line = Inr st') = (str_startswith line ''$var'' \<longrightarrow> var_ok line)"
  by (auto simp: parse_var_def var_ok_def split: list.splits option.splits)

lemma parse_change_ok: "\<exists>st'. parse_change st line = Inr st'"
  using decode_change_total [of line]
  by (auto simp: parse_change_def)

lemma parse_line_lines_ok:
  "(\<exists>st'. parse_line st raw = Inr st' \<and> lines_ok (in_definitions st') ls) =
   lines_ok (in_definitions st) (raw # ls)"
proof -
  have "(\<exists>st'. parse_line st raw = Inr st' \<and> lines_ok (in_definitions st') ls) =
        ((\<exists>st'. parse_line st raw = Inr st') \<and>
         lines_ok (in_definitions st \<and> \<not> str_startswith (str_strip raw) ''$enddefinitions'') ls)"
    using parse_line_phase [of st raw] by auto
  also have "\<dots> = lines_ok (in_definitions st) (raw # ls)"
    using parse_var_ok [of st "str_strip raw"] parse_change_ok [of st "str_strip raw"]
    by (auto simp: parse_line_cases Let_def parse_timestamp_def str_startswith_Cons
        split: list.splits option.splits)
  finally show ?thesis .
qed

lemma parse_lines_ok: "(\<exists>st'. parse_lines st ls = Inr st') = lines_ok (in_definitions st) ls"
proof (induction ls arbitrary: st)
  case Nil
  show ?case by simp
next
  case (Cons l ls)
  have "(\<exists>st'. parse_lines st (l # ls) = Inr st') =
        (\<exists>st1. parse_line st l = Inr st1 \<and> (\<exists>st'. parse_lines st1 ls = Inr st'))"
    by (auto split: sum.splits)
  also have "\<dots> = (\<exists>st1. parse_line st l = Inr st1 \<and> lines_ok (in_definitions st1) ls)"
    by (simp add: Cons.IH)
  also have "\<dots> = lines_ok (in_definitions st) (l # ls)"
    by (rule parse_line_lines_ok)
  finally show ?case .
qed

text \<open>
  Claim C1, as the code has it. The parse of an opened file, its lines once read,
  completes without an exception if and only if every line that starts with \<^verbatim>\<open>$var\<close> has at least five
  fields, the third an integer, and every line that starts with \<^verbatim>\<open>#\<close> and comes
  after the end of the definitions has an integer behind the \<^verbatim>\<open>#\<close>. An integer
  is here a text that \<^verbatim>\<open>int\<close> accepts, \<open>py_int\<close> above: a decimal literal of at
  most 4300 digits, with the whitespace that \<^verbatim>\<open>int\<close> skips around it. Every other
  line, whatever it holds, is passed over or recorded without an error. The code has no
  handler: a declaration line with fewer fields or another width ends the parse.
\<close>

theorem parse_completes_iff: "(\<exists>r. parse_vcd ls = Inr r) = lines_ok True ls"
  using parse_lines_ok [of init ls]
  by (auto simp: parse_vcd_def init_def split: sum.splits)

theorem parse_completes_iff_witness:
  "(\<exists>r. parse_vcd [''$var wire 1 ! clk $end'', ''#x'', ''$enddefinitions $end'', ''#0'', ''1!'',
                     ''b1'', ''$scope'', [], ''1''] = Inr r) \<and>
   \<not> (\<exists>r. parse_vcd [''$var wire 1 ! clk $end'', ''$enddefinitions $end'', ''#x''] = Inr r) \<and>
   \<not> (\<exists>r. parse_vcd [''$var wire 1''] = Inr r)"
proof -
  have "lines_ok True [''$var wire 1 ! clk $end'', ''#x'', ''$enddefinitions $end'', ''#0'',
                       ''1!'', ''b1'', ''$scope'', [], ''1'']"
    by (simp add: var_ok_def str_defs)
  moreover have "\<not> lines_ok True [''$var wire 1 ! clk $end'', ''$enddefinitions $end'', ''#x'']"
    by (simp add: var_ok_def str_defs)
  moreover have "\<not> lines_ok True [''$var wire 1'']"
    by (simp add: var_ok_def str_defs)
  ultimately show ?thesis
    using parse_completes_iff [of "[''$var wire 1 ! clk $end'', ''#x'', ''$enddefinitions $end'',
                                    ''#0'', ''1!'', ''b1'', ''$scope'', [], ''1'']"]
      parse_completes_iff [of "[''$var wire 1 ! clk $end'', ''$enddefinitions $end'', ''#x'']"]
      parse_completes_iff [of "[''$var wire 1'']"]
    by simp
qed

text \<open>
  The claim as written says that the line \<^verbatim>\<open>$var wire abc ! clk $end\<close> is skipped and
  the parse goes on. The conversion of \<^verbatim>\<open>abc\<close> raises and nothing is returned.
\<close>

theorem bad_width_aborts:
  "parse_vcd [''$var wire abc ! clk $end'', ''$enddefinitions $end'', ''#0'', ''1!''] = Inl ValueError"
  by (simp add: eval_defs)

text \<open>
  Too few fields, a time that is not an integer, and a time behind a character that
  \<^verbatim>\<open>str.strip\<close> removes and \<^verbatim>\<open>int\<close> does not, end the parse as well.
\<close>

lemma few_fields_abort: "parse_vcd [''$var wire 1''] = Inl IndexError"
  by (simp add: eval_defs)

lemma bad_timestamp_aborts:
  "parse_vcd [''$var wire 1 ! clk $end'', ''$enddefinitions $end'', ''#x''] = Inl ValueError"
  by (simp add: eval_defs)

lemma marker_then_separator_aborts:
  "parse_vcd [''$enddefinitions $end'', [CHR ''#'', CHR 0x1C, CHR ''5'']] = Inl ValueError"
  by (simp add: eval_defs)

end
